theory Spec2Isabelle
  imports Main
begin

section \<open>Observable effects\<close>

text \<open>
  The orchestrator talks to collaborators that live outside the two modelled files: the
  logger, the manager's lifecycle hooks, the operating system's processes. Every such call
  is recorded, in order, as an event; a function that performs effects returns the events
  it produced (or appends them to the trace held in the processor state).
\<close>

datatype level = DEBUG | INFO | WARNING | CRITICAL

datatype psutil_error = NoSuchProcess | AccessDenied

definition SIGINT :: int where
  "SIGINT = 2"

definition SIGTERM :: int where
  "SIGTERM = 15"

section \<open>utils/cmd.py\<close>

subsection \<open>The process table seen through psutil\<close>

text \<open>
  \<^verbatim>\<open>psutil.Process(pid)\<close>, \<^verbatim>\<open>parent.children(recursive=True)\<close> and
  \<^verbatim>\<open>proc.send_signal(sig)\<close> are library calls; each either succeeds or raises a psutil
  error. The record below fixes, for one call of \<^verbatim>\<open>kill_proc_tree\<close>, what each of them
  answers: \<open>None\<close> (or \<open>Inr\<close>) is success, \<open>Some e\<close> (or \<open>Inl e\<close>) is the exception raised.
  A child that has exited between its enumeration and its signal is a pid whose
  \<open>send_signal\<close> answers \<open>Some NoSuchProcess\<close>.
\<close>

record os =
  Process :: "int \<Rightarrow> psutil_error option"
  children :: "int \<Rightarrow> psutil_error + int list"
  send_signal :: "int \<Rightarrow> int \<Rightarrow> psutil_error option"

text \<open>What \<^verbatim>\<open>kill_proc_tree\<close> does to the outside: signals delivered and log lines.\<close>

datatype sys_event = Signalled int int | Logged level string

text \<open>
  The loop \<^verbatim>\<open>for child in parent.children(recursive=True): child.send_signal(sig)\<close>:
  the signals delivered so far, and the exception that ended the loop early, if any.
\<close>

fun signal_children :: "os \<Rightarrow> int \<Rightarrow> int list \<Rightarrow> sys_event list \<times> psutil_error option" where
  "signal_children w sig [] = ([], None)"
| "signal_children w sig (c # cs) =
     (case send_signal w c sig of
        Some e \<Rightarrow> ([], Some e)
      | None \<Rightarrow> (case signal_children w sig cs of (tr, r) \<Rightarrow> (Signalled c sig # tr, r)))"

text \<open>The body of the \<^verbatim>\<open>try\<close> block.\<close>

definition kill_proc_tree_body ::
  "os \<Rightarrow> int \<Rightarrow> bool \<Rightarrow> int \<Rightarrow> sys_event list \<times> psutil_error option" where
  "kill_proc_tree_body w pid including_parent sig =
     (case Process w pid of
        Some e \<Rightarrow> ([], Some e)
      | None \<Rightarrow>
         (case children w pid of
            Inl e \<Rightarrow> ([], Some e)
          | Inr cs \<Rightarrow>
             (case signal_children w sig cs of
                (tr, Some e) \<Rightarrow> (tr, Some e)
              | (tr, None) \<Rightarrow>
                 if including_parent then
                   (case send_signal w pid sig of
                      Some e \<Rightarrow> (tr, Some e)
                    | None \<Rightarrow> (tr @ [Signalled pid sig], None))
                 else (tr, None))))"

text \<open>
  \<^verbatim>\<open>kill_proc_tree(pid, including_parent=True, sig=signal.SIGTERM)\<close>. The handler
  \<^verbatim>\<open>except psutil.NoSuchProcess\<close> logs a warning and lets the function return; any other
  psutil error leaves the function. The second component is the exception that reaches
  the caller (\<open>None\<close>: the call returned normally).
\<close>

definition kill_proc_tree ::
  "os \<Rightarrow> int \<Rightarrow> bool \<Rightarrow> int \<Rightarrow> sys_event list \<times> psutil_error option" where
  "kill_proc_tree w pid including_parent sig =
     (case kill_proc_tree_body w pid including_parent sig of
        (tr, Some NoSuchProcess) \<Rightarrow>
          (tr @ [Logged WARNING ''error while trying to kill proccess with id %s''], None)
      | (tr, r) \<Rightarrow> (tr, r))"

text \<open>The pids that received a signal, in order.\<close>

fun signalled :: "sys_event list \<Rightarrow> int list" where
  "signalled [] = []"
| "signalled (Signalled p sig # es) = p # signalled es"
| "signalled (Logged l m # es) = signalled es"

fun warnings :: "sys_event list \<Rightarrow> string list" where
  "warnings [] = []"
| "warnings (Logged l m # es) = (if l = WARNING then m # warnings es else warnings es)"
| "warnings (Signalled p sig # es) = warnings es"

subsection \<open>run_command\<close>

text \<open>
  A spawned process as \<^verbatim>\<open>run_command\<close> sees it: the handle's pid, the lines it writes on
  the merged stdout/stderr pipe until it closes it, and the code \<^verbatim>\<open>proc.wait()\<close> returns.
  The process is one that closes its output and exits; \<^verbatim>\<open>shlex.split\<close> and
  \<^verbatim>\<open>subprocess.Popen\<close> are library calls that may raise, given by the record \<open>shell\<close>.
\<close>

record popen =
  proc_pid :: int
  stdout :: "string list"
  returncode :: int

datatype cmd = Str string | Collection "string list"

datatype run_error = ValueError | OSError

record shell =
  shlex_split :: "string \<Rightarrow> string list option"
  Popen :: "string list \<Rightarrow> string option \<Rightarrow> popen option"

text \<open>
  A callback is an opaque callable; what matters here is when it is called and with what.
  It is modelled by the effects its call has, as a list of effects of any type \<open>'e\<close>;
  \<^verbatim>\<open>empty\<close> is the default that does nothing.
\<close>

definition empty :: "'a \<Rightarrow> 'e list" where
  "empty x = []"

text \<open>
  What \<^verbatim>\<open>run_command\<close> does to the outside: its own debug lines and the effects of the
  callbacks it calls. The second component of the result is the exception that leaves the
  function, or the value returned.
\<close>

datatype 'e cmd_event = Debug string | Effect 'e

definition run_command ::
  "shell \<Rightarrow> cmd \<Rightarrow> (popen \<Rightarrow> 'e list) option \<Rightarrow> (string \<Rightarrow> 'e list) option \<Rightarrow>
   (int \<Rightarrow> 'e list) option \<Rightarrow> string option \<Rightarrow> 'e cmd_event list \<times> (run_error + int)" where
  "run_command sh c on_start on_output on_finish cwd =
     (let on_start = (case on_start of None \<Rightarrow> empty | Some f \<Rightarrow> f);
          on_output = (case on_output of None \<Rightarrow> empty | Some f \<Rightarrow> f);
          on_finish = (case on_finish of None \<Rightarrow> empty | Some f \<Rightarrow> f)
      in case (case c of Str s \<Rightarrow> shlex_split sh s | Collection xs \<Rightarrow> Some xs) of
           None \<Rightarrow> ([], Inl ValueError)
         | Some command \<Rightarrow>
            (let logged = [Debug ''$ %s'', Debug ''> %s'']
             in case Popen sh command cwd of
                  None \<Rightarrow> (logged, Inl OSError)
                | Some proc \<Rightarrow>
                   (let ret = returncode proc
                    in (logged @
                        map Effect
                          (on_start proc @ concat (map on_output (stdout proc)) @ on_finish ret),
                        Inr ret))))"

section \<open>lib/processor.py\<close>

subsection \<open>Messages, petitions and the manager\<close>

text \<open>A \<^verbatim>\<open>Message\<close> is opaque to the processor but for its \<^verbatim>\<open>id\<close>.\<close>

datatype message = Message (msg_id: int) (msg_body: string)

text \<open>
  \<^verbatim>\<open>finish\<close>, \<^verbatim>\<open>exists\<close> and the signal queues take \<^verbatim>\<open>Union[Message, int]\<close>.
\<close>

datatype target = Id int | Msg message

text \<open>
  What an action does, as its launch thread sees it: it calls \<^verbatim>\<open>assign_pid\<close> some number
  of times, each time with a pid or with a \<^verbatim>\<open>Popen\<close> handle, and then returns or raises.
  The handler of \<^verbatim>\<open>_start\<close> is \<^verbatim>\<open>except Exception\<close>, so an exception carries whether
  it is an instance of \<^verbatim>\<open>Exception\<close> (\<^verbatim>\<open>SystemExit\<close>, \<^verbatim>\<open>KeyboardInterrupt\<close> and
  \<^verbatim>\<open>GeneratorExit\<close> are not).
\<close>

datatype proc = Pid int | Handle popen

datatype py_exc = PyExc (isinstance_Exception: bool) (exc_name: string)

datatype outcome = Returned | Raised py_exc

text \<open>
  Modelled from the spec: the class \<^verbatim>\<open>Petition\<close> (orcha/interfaces/petition.py) is not
  among the sources. The spec gives a unit an integer identifier, an ordering key (lower
  value first), a result channel that takes lines and status codes, a readiness predicate
  and an action. The channel is an object shared with the client, so the petition holds
  its address; \<open>p_condition\<close> is what \<^verbatim>\<open>p.condition(p)\<close> answers and \<open>p_action\<close> what
  \<^verbatim>\<open>p.action(assign_pid, p)\<close> does.
\<close>

record petition =
  p_id :: int
  p_priority :: int
  p_queue :: nat
  p_condition :: bool
  p_action :: "proc list \<times> outcome"

text \<open>What is put on a petition's result channel: a line of text or a status code.\<close>

datatype chan_item = Line string | Status int

text \<open>The items of the internal priority queue: \<^verbatim>\<open>EmptyPetition()\<close> or a petition.\<close>

datatype qitem = EmptyPetition | Pet petition

text \<open>
  The trace of the processor: log records (level and format string), the manager's
  lifecycle hooks, the call of a petition's action, and what \<^verbatim>\<open>kill_proc_tree\<close> did.
\<close>

datatype event =
    Log level string
  | OnStart petition
  | OnFinish petition
  | Action petition
  | Sys sys_event

text \<open>The calls the manager has received so far.\<close>

fun hooks :: "event list \<Rightarrow> event list" where
  "hooks [] = []"
| "hooks (OnStart p # es) = OnStart p # hooks es"
| "hooks (OnFinish p # es) = OnFinish p # hooks es"
| "hooks (e # es) = hooks es"

text \<open>The petitions \<^verbatim>\<open>on_finish\<close> has been called with, in order.\<close>

fun finished :: "event list \<Rightarrow> petition list" where
  "finished [] = []"
| "finished (OnFinish p # es) = p # finished es"
| "finished (e # es) = finished es"

text \<open>
  Modelled from the spec: the manager (orcha/lib/manager.py) is not among the sources. It
  converts a message into a petition or into nothing and says whether an id is running;
  both answers may depend on the lifecycle calls it has received, which are its first
  argument here. Its hooks \<^verbatim>\<open>on_start\<close> and \<^verbatim>\<open>on_finish\<close> are events of the trace.
\<close>

record manager =
  convert_to_petition :: "event list \<Rightarrow> message \<Rightarrow> petition option"
  is_running :: "event list \<Rightarrow> target \<Rightarrow> bool"

subsection \<open>The state of the processor\<close>

text \<open>
  A launch thread runs \<^verbatim>\<open>_start(p)\<close>: it checks the condition, runs the action (the calls
  of \<^verbatim>\<open>assign_pid\<close> still to come are \<open>w_todo\<close>), cleans up and is finished.
  \<open>w_assigned\<close> says whether \<^verbatim>\<open>assign_pid\<close> has been called; \<open>w_raised\<close> is the exception
  that left \<^verbatim>\<open>_start\<close>, if any.
\<close>

datatype phase = CHECK_CONDITION | RUN_ACTION | CLEANUP | FINISHED

record worker =
  w_petition :: petition
  w_phase :: phase
  w_todo :: "proc list"
  w_assigned :: bool
  w_raised :: "py_exc option"

text \<open>
  Each long-lived thread is a loop \<^verbatim>\<open>while self.running: x = q.get(); ...\<close>: it is at the
  loop head, blocked in \<^verbatim>\<open>get\<close> (or in \<^verbatim>\<open>wait\<close>), or has left the loop.
\<close>

datatype tstate = LoopHead | Blocked | Exited

text \<open>
  The fields of \<^verbatim>\<open>Processor\<close>. \<open>queue\<close> and \<open>finishq\<close> are the entry queues (\<open>None\<close> is the
  sentinel), \<open>internalq\<close> holds the content of the \<^verbatim>\<open>PriorityQueue\<close> in the order it was
  put, \<open>threads\<close> is the ledger of launch threads (a thread is its index in \<open>workers\<close>),
  \<open>petitions\<close> is the registry. \<open>chans\<close> is the store of result channels and \<open>trace\<close> the
  events so far.
\<close>

record processor =
  running :: bool
  queue :: "message option list"
  finishq :: "target option list"
  manager :: manager
  internalq :: "qitem list"
  signals :: "target option list"
  threads :: "nat list"
  petitions :: "int \<rightharpoonup> int"
  gc_event :: bool
  process_t :: tstate
  internal_t :: tstate
  finished_t :: tstate
  signal_t :: tstate
  gc_t :: tstate
  workers :: "worker list"
  chans :: "nat \<Rightarrow> chan_item list"
  trace :: "event list"

definition log :: "processor \<Rightarrow> level \<Rightarrow> string \<Rightarrow> processor" where
  "log s l m = s\<lparr>trace := trace s @ [Log l m]\<rparr>"

subsection \<open>Construction\<close>

text \<open>
  \<^verbatim>\<open>Processor.__instance__\<close> is \<open>None\<close> or the instance; an instance has the flag
  \<^verbatim>\<open>__must_init__\<close> and, once \<^verbatim>\<open>__init__\<close> has run through, its attributes.
\<close>

record inst =
  must_init :: bool
  attrs :: "processor option"

text \<open>\<^verbatim>\<open>__new__\<close>: the new value of the class attribute and the instance returned.\<close>

definition new :: "inst option \<Rightarrow> inst option \<times> inst" where
  "new cls =
     (case cls of
        None \<Rightarrow> (let i = \<lparr>must_init = True, attrs = None\<rparr> in (Some i, i))
      | Some i \<Rightarrow> (Some i, i))"

text \<open>The state \<^verbatim>\<open>__init__\<close> sets up: the fields, and the five threads started.\<close>

definition initial ::
  "message option list \<Rightarrow> target option list \<Rightarrow> manager \<Rightarrow> processor" where
  "initial q f m =
     \<lparr>running = True, queue = q, finishq = f, manager = m, internalq = [], signals = [],
      threads = [], petitions = Map.empty, gc_event = False,
      process_t = LoopHead, internal_t = LoopHead, finished_t = LoopHead,
      signal_t = LoopHead, gc_t = LoopHead,
      workers = [], chans = (\<lambda>c. []), trace = []\<rparr>"

text \<open>
  \<^verbatim>\<open>__init__(self, queue=None, finishq=None, manager=None)\<close>. A queue object and a manager
  define neither \<^verbatim>\<open>__bool__\<close> nor \<^verbatim>\<open>__len__\<close>, so \<^verbatim>\<open>all((queue, finishq, manager))\<close> is
  that none of them is \<^verbatim>\<open>None\<close>.
\<close>

definition init ::
  "inst \<Rightarrow> message option list option \<Rightarrow> target option list option \<Rightarrow>
   manager option \<Rightarrow> run_error + inst" where
  "init self q f m =
     (if must_init self then
        (case (q, f, m) of
           (Some q', Some f', Some m') \<Rightarrow>
             Inr \<lparr>must_init = False, attrs = Some (initial q' f' m')\<rparr>
         | _ \<Rightarrow> Inl ValueError)
      else Inr self)"

text \<open>
  The call \<^verbatim>\<open>Processor(queue, finishq, manager)\<close>: \<^verbatim>\<open>__new__\<close>, then \<^verbatim>\<open>__init__\<close> on the
  object it returned. The class attribute refers to that object, so it sees what
  \<^verbatim>\<open>__init__\<close> has set; an \<^verbatim>\<open>__init__\<close> that raises has set nothing.
\<close>

definition Processor ::
  "inst option \<Rightarrow> message option list option \<Rightarrow> target option list option \<Rightarrow>
   manager option \<Rightarrow> inst option \<times> (run_error + inst)" where
  "Processor cls q f m =
     (case new cls of
        (cls', self) \<Rightarrow>
          (case init self q f m of
             Inl e \<Rightarrow> (cls', Inl e)
           | Inr self' \<Rightarrow> (Some self', Inr self')))"

subsection \<open>The public methods\<close>

definition exists :: "processor \<Rightarrow> target \<Rightarrow> bool" where
  "exists s m = is_running (manager s) (hooks (trace s)) m"

definition enqueue :: "processor \<Rightarrow> message \<Rightarrow> processor" where
  "enqueue s m = s\<lparr>queue := queue s @ [Some m]\<rparr>"

definition finish :: "processor \<Rightarrow> target \<Rightarrow> processor" where
  "finish s m =
     (let i = (case m of Msg x \<Rightarrow> msg_id x | Id i \<Rightarrow> i);
          s1 = log s DEBUG ''received petition for finish message with ID %d''
      in s1\<lparr>finishq := finishq s1 @ [Some (Id i)]\<rparr>)"

text \<open>
  \<^verbatim>\<open>shutdown\<close> up to its first \<^verbatim>\<open>join\<close>: the flag, the two sentinels and the event. The
  joins wait for the threads and change no field.
\<close>

definition shutdown :: "processor \<Rightarrow> processor" where
  "shutdown s =
     (let s1 = log s INFO ''finishing processor'';
          s2 = s1\<lparr>running := False, queue := queue s1 @ [None],
                  finishq := finishq s1 @ [None], gc_event := True\<rparr>
      in log s2 INFO ''waiting for pending processes...'')"

subsection \<open>The message thread: \<^verbatim>\<open>_process\<close>\<close>

text \<open>Python's \<^verbatim>\<open>str\<close> of an integer, for the f-string of the rejection line.\<close>

function str_nat :: "nat \<Rightarrow> string" where
  "str_nat n =
     (if n < 10 then [char_of (48 + n)]
      else str_nat (n div 10) @ [char_of (48 + n mod 10)])"
  by pat_completeness auto
termination
  by (relation "measure (\<lambda>n. n)") auto

declare str_nat.simps [simp del]

definition str_int :: "int \<Rightarrow> string" where
  "str_int i = (if i < 0 then CHR ''-'' # str_nat (nat (- i)) else str_nat (nat i))"

text \<open>The line \<^verbatim>\<open>f'message with ID "{p.id}" already exists\n'\<close>.\<close>

definition already_exists :: "int \<Rightarrow> string" where
  "already_exists i =
     ''message with ID '' @ [CHR 0x22] @ str_int i @ [CHR 0x22] @ '' already exists'' @ [CHR 0x0A]"

text \<open>The internal queue is a \<^verbatim>\<open>PriorityQueue\<close>; \<^verbatim>\<open>put\<close> adds an item to its content.\<close>

definition pq_put :: "qitem list \<Rightarrow> qitem \<Rightarrow> qitem list" where
  "pq_put q x = q @ [x]"

text \<open>\<^verbatim>\<open>p.queue.put(x)\<close> on the result channel at address \<open>c\<close>.\<close>

definition chan_put :: "processor \<Rightarrow> nat \<Rightarrow> chan_item \<Rightarrow> processor" where
  "chan_put s c x = s\<lparr>chans := (chans s)(c := chans s c @ [x])\<rparr>"

text \<open>
  One turn of the loop of \<^verbatim>\<open>_process\<close>, from the value \<open>m\<close> that \<^verbatim>\<open>self.queue.get()\<close>
  returned to the next test of \<^verbatim>\<open>self.running\<close>. The two \<^verbatim>\<open>continue\<close> branches skip the
  \<^verbatim>\<open>put\<close> on the internal queue.
\<close>

definition process_item :: "processor \<Rightarrow> message option \<Rightarrow> processor" where
  "process_item s m =
     (case m of
        None \<Rightarrow> s\<lparr>internalq := pq_put (internalq s) EmptyPetition\<rparr>
      | Some m' \<Rightarrow>
         (let s1 = log s DEBUG ''converting message \"%s\" into a petition''
          in case convert_to_petition (manager s1) (hooks (trace s1)) m' of
               None \<Rightarrow> log s1 DEBUG ''message \"%s\" is invalid, skipping...''
             | Some p \<Rightarrow>
                (let s2 = log s1 DEBUG ''> %s''
                 in if exists s2 (Id (p_id p)) then
                      (let s3 = log s2 WARNING ''received message (%s) already exists'';
                           s4 = chan_put s3 (p_queue p) (Line (already_exists (p_id p)))
                       in chan_put s4 (p_queue p) (Status 1))
                    else s2\<lparr>internalq := pq_put (internalq s2) (Pet p)\<rparr>)))"

subsection \<open>The launch thread: \<^verbatim>\<open>_start\<close>\<close>

text \<open>The closure \<^verbatim>\<open>assign_pid\<close> of the launch thread of \<open>p\<close>.\<close>

definition assign_pid :: "petition \<Rightarrow> processor \<Rightarrow> proc \<Rightarrow> processor" where
  "assign_pid p s pr =
     (let pid = (case pr of Pid i \<Rightarrow> i | Handle h \<Rightarrow> proc_pid h);
          s1 = log s DEBUG ''assigning pid to \"%d\"'';
          s2 = s1\<lparr>petitions := (petitions s1)(p_id p \<mapsto> pid)\<rparr>
      in s2\<lparr>trace := trace s2 @ [OnStart p]\<rparr>)"

text \<open>The branch of a condition that does not hold.\<close>

definition requeue :: "processor \<Rightarrow> petition \<Rightarrow> processor" where
  "requeue s p =
     (let s1 = log s DEBUG
                 ''petition \"%s\" did not satisfy the condition, re-adding to queue''
      in s1\<lparr>internalq := pq_put (internalq s1) (Pet p), gc_event := True\<rparr>)"

text \<open>The call \<^verbatim>\<open>p.action(assign_pid, p)\<close>: the state after it, and how it ended.\<close>

definition run_action :: "processor \<Rightarrow> petition \<Rightarrow> processor \<times> outcome" where
  "run_action s p =
     (foldl (assign_pid p) (s\<lparr>trace := trace s @ [Action p]\<rparr>) (fst (p_action p)),
      snd (p_action p))"

text \<open>
  \<^verbatim>\<open>except Exception as e\<close>: an instance of \<^verbatim>\<open>Exception\<close> is logged and stops here; any
  other exception goes on (the second component) once \<^verbatim>\<open>finally\<close> has run.
\<close>

definition except_Exception :: "processor \<Rightarrow> outcome \<Rightarrow> processor \<times> py_exc option" where
  "except_Exception s out =
     (case out of
        Returned \<Rightarrow> (s, None)
      | Raised e \<Rightarrow>
          if isinstance_Exception e then
            (log s WARNING
               ''unhandled exception while running petition \"%s\" -> \"%s\"'', None)
          else (s, Some e))"

text \<open>The \<^verbatim>\<open>finally\<close> block.\<close>

definition finally_block :: "processor \<Rightarrow> petition \<Rightarrow> processor" where
  "finally_block s p =
     (let s1 = log s DEBUG ''petition \"%s\" finished, triggering callbacks'';
          s2 = s1\<lparr>petitions := (petitions s1)(p_id p := None), gc_event := True\<rparr>
      in s2\<lparr>trace := trace s2 @ [OnFinish p]\<rparr>)"

text \<open>
  \<^verbatim>\<open>_start(p)\<close> run from its first line to its last: the state it leaves and the exception
  that leaves it, if any.
\<close>

definition start :: "processor \<Rightarrow> petition \<Rightarrow> processor \<times> py_exc option" where
  "start s p =
     (let s0 = log s DEBUG ''launching petition \"%s\"''
      in if \<not> p_condition p then (requeue s0 p, None)
         else
           (let s1 = log s0 DEBUG ''petition \"%s\" satisfied condition''
            in case run_action s1 p of
                 (s2, out) \<Rightarrow>
                   (case except_Exception s2 out of
                      (s3, raised) \<Rightarrow> (finally_block s3 p, raised))))"

subsection \<open>The launch thread, step by step\<close>

text \<open>
  Launch threads run beside each other and beside the long-lived threads, so \<^verbatim>\<open>_start\<close> is
  also given in steps that other threads can come between: the test of the condition,
  each call of \<^verbatim>\<open>assign_pid\<close> by the action, the end of the action with its handler, and
  the \<^verbatim>\<open>finally\<close> block. The steps are made of the same parts as \<open>start\<close>.
\<close>

definition launch_step :: "processor \<Rightarrow> worker \<Rightarrow> processor \<times> worker" where
  "launch_step s wk =
     (let p = w_petition wk
      in case w_phase wk of
           CHECK_CONDITION \<Rightarrow>
             (let s0 = log s DEBUG ''launching petition \"%s\"''
              in if \<not> p_condition p then (requeue s0 p, wk\<lparr>w_phase := FINISHED\<rparr>)
                 else
                   (let s1 = log s0 DEBUG ''petition \"%s\" satisfied condition''
                    in (s1\<lparr>trace := trace s1 @ [Action p]\<rparr>,
                        wk\<lparr>w_phase := RUN_ACTION, w_todo := fst (p_action p)\<rparr>)))
         | RUN_ACTION \<Rightarrow>
             (case w_todo wk of
                pr # rest \<Rightarrow> (assign_pid p s pr, wk\<lparr>w_todo := rest, w_assigned := True\<rparr>)
              | [] \<Rightarrow>
                 (case except_Exception s (snd (p_action p)) of
                    (s3, raised) \<Rightarrow> (s3, wk\<lparr>w_phase := CLEANUP, w_raised := raised\<rparr>)))
         | CLEANUP \<Rightarrow> (finally_block s p, wk\<lparr>w_phase := FINISHED\<rparr>)
         | FINISHED \<Rightarrow> (s, wk))"

text \<open>A step of the launch thread \<open>k\<close>.\<close>

definition t_launch :: "nat \<Rightarrow> processor \<Rightarrow> processor" where
  "t_launch k s =
     (if k < length (workers s) then
        (case launch_step s (workers s ! k) of
           (s', wk') \<Rightarrow> s'\<lparr>workers := (workers s')[k := wk']\<rparr>)
      else s)"

text \<open>\<^verbatim>\<open>thread.is_alive()\<close> for a thread of the ledger.\<close>

definition is_alive :: "processor \<Rightarrow> nat \<Rightarrow> bool" where
  "is_alive s t = (t < length (workers s) \<and> w_phase (workers s ! t) \<noteq> FINISHED)"

subsection \<open>The long-lived threads\<close>

definition t_process :: "processor \<Rightarrow> processor" where
  "t_process s =
     (case process_t s of
        LoopHead \<Rightarrow>
          if running s then (log s DEBUG ''waiting for message...'')\<lparr>process_t := Blocked\<rparr>
          else s\<lparr>process_t := Exited\<rparr>
      | Blocked \<Rightarrow>
          (case queue s of
             [] \<Rightarrow> s
           | m # rest \<Rightarrow> (process_item (s\<lparr>queue := rest\<rparr>) m)\<lparr>process_t := LoopHead\<rparr>)
      | Exited \<Rightarrow> s)"

text \<open>\<^verbatim>\<open>_signal_handler\<close>: every value read, \<^verbatim>\<open>None\<close> too, goes to the internal queue.\<close>

definition t_finished :: "processor \<Rightarrow> processor" where
  "t_finished s =
     (case finished_t s of
        LoopHead \<Rightarrow>
          if running s then
            (log s DEBUG ''waiting for finish message...'')\<lparr>finished_t := Blocked\<rparr>
          else s\<lparr>finished_t := Exited\<rparr>
      | Blocked \<Rightarrow>
          (case finishq s of
             [] \<Rightarrow> s
           | m # rest \<Rightarrow> s\<lparr>finishq := rest, signals := signals s @ [m], finished_t := LoopHead\<rparr>)
      | Exited \<Rightarrow> s)"

text \<open>
  Modelled from the spec: the ordering of petitions is in the class \<^verbatim>\<open>Petition\<close>, which is
  not among the sources. A lower key goes first; the rank of the sentinel is not given,
  so it is below nothing and nothing is below it. \<^verbatim>\<open>PriorityQueue.get\<close> returns an item
  that no other is below; which one among several is left to the index \<open>k\<close>.
\<close>

fun pq_less :: "qitem \<Rightarrow> qitem \<Rightarrow> bool" where
  "pq_less (Pet a) (Pet b) = (p_priority a < p_priority b)"
| "pq_less x y = False"

definition pq_get :: "qitem list \<Rightarrow> nat \<Rightarrow> (qitem \<times> qitem list) option" where
  "pq_get q k =
     (if k < length q \<and> list_all (\<lambda>x. \<not> pq_less x (q ! k)) q
      then Some (q ! k, take k q @ drop (Suc k) q) else None)"

text \<open>
  One turn of \<^verbatim>\<open>_internal_process\<close> from the item popped: a new launch thread, started
  and appended to the ledger (the pause that follows changes nothing), or nothing for
  the sentinel.
\<close>

definition internal_process_item :: "processor \<Rightarrow> qitem \<Rightarrow> processor" where
  "internal_process_item s x =
     (case x of
        Pet p \<Rightarrow>
          (let s1 = log s DEBUG ''creating thread for petition \"%s\"'';
               launch_t = length (workers s1)
           in s1\<lparr>workers := workers s1 @
                    [\<lparr>w_petition = p, w_phase = CHECK_CONDITION, w_todo = [],
                      w_assigned = False, w_raised = None\<rparr>],
                  threads := threads s1 @ [launch_t]\<rparr>)
      | EmptyPetition \<Rightarrow> log s DEBUG ''received empty petition'')"

definition t_internal :: "nat \<Rightarrow> processor \<Rightarrow> processor" where
  "t_internal k s =
     (case internal_t s of
        LoopHead \<Rightarrow>
          if running s then
            (log s DEBUG ''waiting for internal petition...'')\<lparr>internal_t := Blocked\<rparr>
          else (log s DEBUG ''internal process handler finished'')\<lparr>internal_t := Exited\<rparr>
      | Blocked \<Rightarrow>
          (case pq_get (internalq s) k of
             None \<Rightarrow> s
           | Some (x, rest) \<Rightarrow>
               (internal_process_item (s\<lparr>internalq := rest\<rparr>) x)\<lparr>internal_t := LoopHead\<rparr>)
      | Exited \<Rightarrow> s)"

text \<open>
  One turn of \<^verbatim>\<open>_internal_signal_handler\<close> from the value popped: the state after it and
  the exception that leaves the loop, if \<^verbatim>\<open>kill_proc_tree\<close> raised one.
\<close>

definition normalize :: "target option \<Rightarrow> int option" where
  "normalize m = (case m of None \<Rightarrow> None | Some (Msg x) \<Rightarrow> Some (msg_id x) | Some (Id i) \<Rightarrow> Some i)"

definition internal_signal_item ::
  "os \<Rightarrow> processor \<Rightarrow> target option \<Rightarrow> processor \<times> psutil_error option" where
  "internal_signal_item w s m =
     (case normalize m of
        None \<Rightarrow> (s, None)
      | Some i \<Rightarrow>
         (let s1 = log s DEBUG ''received signal petition for message with ID \"%d\"''
          in case petitions s1 i of
               None \<Rightarrow>
                 (log s1 WARNING ''message with ID \"%d\" not found or not running!'', None)
             | Some pid \<Rightarrow>
                (case kill_proc_tree w pid False SIGINT of
                   (tr, Some e) \<Rightarrow> (s1\<lparr>trace := trace s1 @ map Sys tr\<rparr>, Some e)
                 | (tr, None) \<Rightarrow>
                     (log (s1\<lparr>trace := trace s1 @ map Sys tr\<rparr>) DEBUG
                        ''sent signal to process \"%d\" and all of its children'', None))))"

definition t_signal :: "os \<Rightarrow> processor \<Rightarrow> processor" where
  "t_signal w s =
     (case signal_t s of
        LoopHead \<Rightarrow>
          if running s then
            (log s DEBUG ''waiting for internal signal...'')\<lparr>signal_t := Blocked\<rparr>
          else s\<lparr>signal_t := Exited\<rparr>
      | Blocked \<Rightarrow>
          (case signals s of
             [] \<Rightarrow> s
           | m # rest \<Rightarrow>
              (case internal_signal_item w (s\<lparr>signals := rest\<rparr>) m of
                 (s', None) \<Rightarrow> s'\<lparr>signal_t := LoopHead\<rparr>
               | (s', Some e) \<Rightarrow> s'\<lparr>signal_t := Exited\<rparr>))
      | Exited \<Rightarrow> s)"

subsection \<open>The garbage collector: \<^verbatim>\<open>_gc\<close>\<close>

text \<open>
  \<^verbatim>\<open>for thread in self._threads: if not thread.is_alive(): self._threads.remove(thread)\<close>.
  A Python list iterator holds the index of the next item and stops when that index is
  no longer below the current length of the list; \<^verbatim>\<open>remove\<close> deletes the first item equal
  to its argument, while the loop is running over that same list.
\<close>

function gc_scan :: "(nat \<Rightarrow> bool) \<Rightarrow> nat \<Rightarrow> nat list \<Rightarrow> nat list" where
  "gc_scan alive i ts =
     (if i < length ts then
        (if \<not> alive (ts ! i) then gc_scan alive (Suc i) (remove1 (ts ! i) ts)
         else gc_scan alive (Suc i) ts)
      else ts)"
  by pat_completeness auto
termination
  by (relation "measure (\<lambda>(alive, i, ts). length ts - i)") (auto simp: length_remove1)

declare gc_scan.simps [simp del]

text \<open>One wake-up: the event is cleared, then the ledger is scanned once.\<close>

definition gc_item :: "processor \<Rightarrow> processor" where
  "gc_item s =
     (let s1 = s\<lparr>gc_event := False\<rparr>;
          ts = gc_scan (is_alive s1) 0 (threads s1)
      in s1\<lparr>threads := ts,
             trace := trace s1 @
               replicate (length (threads s1) - length ts) (Log DEBUG ''pruning thread \"%s\"'')\<rparr>)"

definition t_gc :: "processor \<Rightarrow> processor" where
  "t_gc s =
     (case gc_t s of
        LoopHead \<Rightarrow> if running s then s\<lparr>gc_t := Blocked\<rparr> else s\<lparr>gc_t := Exited\<rparr>
      | Blocked \<Rightarrow> if gc_event s then (gc_item s)\<lparr>gc_t := LoopHead\<rparr> else s
      | Exited \<Rightarrow> s)"

subsection \<open>The processor as a whole\<close>

text \<open>
  What can happen next: a caller uses a public method, or one of the threads takes a
  step. A run is a list of such events from the state \<^verbatim>\<open>__init__\<close> has set up.
\<close>

datatype ev =
    Enqueue message
  | Finish target
  | Shutdown
  | ProcessT
  | FinishedT
  | InternalT nat
  | SignalT
  | GcT
  | LaunchT nat

fun step :: "os \<Rightarrow> ev \<Rightarrow> processor \<Rightarrow> processor" where
  "step w (Enqueue m) s = enqueue s m"
| "step w (Finish m) s = finish s m"
| "step w Shutdown s = shutdown s"
| "step w ProcessT s = t_process s"
| "step w FinishedT s = t_finished s"
| "step w (InternalT k) s = t_internal k s"
| "step w SignalT s = t_signal w s"
| "step w GcT s = t_gc s"
| "step w (LaunchT k) s = t_launch k s"

definition run :: "os \<Rightarrow> ev list \<Rightarrow> processor \<Rightarrow> processor" where
  "run w es s = foldl (\<lambda>s e. step w e s) s es"

subsection \<open>The registry invariant\<close>

text \<open>
  A launch thread is in its interval from its first call of \<^verbatim>\<open>assign_pid\<close> to the end of
  its \<^verbatim>\<open>finally\<close> block. The invariant: every id of the registry is the id of the petition
  of some launch thread that is in its interval.
\<close>

definition in_interval :: "worker \<Rightarrow> bool" where
  "in_interval wk = (w_assigned wk \<and> (w_phase wk = RUN_ACTION \<or> w_phase wk = CLEANUP))"

definition registry_inv :: "processor \<Rightarrow> bool" where
  "registry_inv s =
     (\<forall>i \<in> dom (petitions s).
        \<exists>wk \<in> set (workers s). p_id (w_petition wk) = i \<and> in_interval wk)"

subsection \<open>Sample collaborators\<close>

text \<open>
  A manager that tracks what is running from its own hooks: an id is running from
  \<^verbatim>\<open>on_start\<close> to \<^verbatim>\<open>on_finish\<close>.
\<close>

fun track :: "int list \<Rightarrow> event list \<Rightarrow> int list" where
  "track acc [] = acc"
| "track acc (OnStart p # es) = track (p_id p # acc) es"
| "track acc (OnFinish p # es) = track (removeAll (p_id p) acc) es"
| "track acc (e # es) = track acc es"

definition tracking_manager :: "(message \<Rightarrow> petition option) \<Rightarrow> manager" where
  "tracking_manager conv =
     \<lparr>convert_to_petition = (\<lambda>h m. conv m),
      is_running = (\<lambda>h t. (case t of Id i \<Rightarrow> i | Msg m \<Rightarrow> msg_id m) \<in> set (track [] h))\<rparr>"

text \<open>
  Three units: \<open>unit_a\<close> is ready and its action spawns process 100; \<open>unit_b\<close> has the id
  of \<open>unit_a\<close> and is not ready; the action of \<open>unit_c\<close> calls \<^verbatim>\<open>sys.exit\<close>.
\<close>

definition unit_a :: petition where
  "unit_a = \<lparr>p_id = 5, p_priority = 1, p_queue = 0, p_condition = True,
             p_action = ([Pid 100], Returned)\<rparr>"

definition unit_b :: petition where
  "unit_b = \<lparr>p_id = 5, p_priority = 2, p_queue = 1, p_condition = False,
             p_action = ([], Returned)\<rparr>"

definition unit_c :: petition where
  "unit_c = \<lparr>p_id = 6, p_priority = 1, p_queue = 2, p_condition = True,
             p_action = ([], Raised (PyExc False ''SystemExit''))\<rparr>"

definition by_body :: "message \<Rightarrow> petition option" where
  "by_body m =
     (if msg_body m = ''a'' then Some unit_a
      else if msg_body m = ''b'' then Some unit_b
      else if msg_body m = ''c'' then Some unit_c
      else None)"

definition quiet_os :: os where
  "quiet_os = \<lparr>Process = (\<lambda>p. None), children = (\<lambda>p. Inr []), send_signal = (\<lambda>p s. None)\<rparr>"

definition unit_d :: petition where
  "unit_d = \<lparr>p_id = 8, p_priority = 3, p_queue = 4, p_condition = True,
             p_action = ([Handle \<lparr>proc_pid = 200, stdout = [], returncode = 1\<rparr>],
                         Raised (PyExc True ''RuntimeError''))\<rparr>"

text \<open>Process 100 has the children 101 and 102; every process takes a signal.\<close>

definition tree_os :: os where
  "tree_os = \<lparr>Process = (\<lambda>p. None),
              children = (\<lambda>p. if p = 100 then Inr [101, 102] else Inr []),
              send_signal = (\<lambda>p s. None)\<rparr>"

text \<open>
  A processor just constructed, and the same after the message for \<open>unit_a\<close> has come in
  and its action has called \<^verbatim>\<open>assign_pid(100)\<close>.
\<close>

definition fresh :: processor where
  "fresh = initial [] [] (tracking_manager by_body)"

definition running_a :: processor where
  "running_a =
     run quiet_os
       [Enqueue (Message 5 ''a''), ProcessT, ProcessT, InternalT 0, InternalT 0,
        LaunchT 0, LaunchT 0] fresh"

text \<open>
  Two messages for units that are not ready: both launch threads have put their petition
  back and ended, and the garbage collector waits on the event, which is set.
\<close>

definition both_finished :: processor where
  "both_finished =
     run quiet_os
       [Enqueue (Message 1 ''b''), Enqueue (Message 2 ''b''),
        ProcessT, ProcessT, ProcessT, ProcessT,
        InternalT 0, InternalT 0, InternalT 0, InternalT 0,
        LaunchT 0, LaunchT 1, GcT] fresh"

text \<open>
  A shell in which the command \<^verbatim>\<open>sh -c 'echo one; echo two; exit 3'\<close> starts process 4711,
  and callbacks that record their calls.
\<close>

definition echo_shell :: shell where
  "echo_shell =
     \<lparr>shlex_split = (\<lambda>s. None),
      Popen = (\<lambda>xs cwd. if xs = [''sh'', ''-c'', ''echo one; echo two; exit 3'']
                         then Some \<lparr>proc_pid = 4711, stdout = [''one'', ''two''], returncode = 3\<rparr>
                         else None)\<rparr>"

datatype call = Started int | Output string | Exit int

text \<open>
  Two messages with the same id, both accepted since neither unit is running yet; then
  \<open>unit_a\<close> is launched and its action calls \<^verbatim>\<open>assign_pid(100)\<close>, while \<open>unit_b\<close> waits in
  the internal queue.
\<close>

definition shared_id :: processor where
  "shared_id =
     run quiet_os
       [Enqueue (Message 5 ''a''), Enqueue (Message 5 ''b''),
        ProcessT, ProcessT, ProcessT, ProcessT,
        InternalT 0, InternalT 0, LaunchT 0, LaunchT 0] fresh"

section \<open>Properties of utils/cmd.py\<close>

lemma signal_children_ok:
  "\<forall>c \<in> set cs. send_signal w c sig = None \<Longrightarrow>
   signal_children w sig cs = (map (\<lambda>c. Signalled c sig) cs, None)"
  by (induction cs) auto

lemma signal_children_stop:
  "\<forall>c \<in> set pre. send_signal w c sig = None \<Longrightarrow> send_signal w c sig = Some e \<Longrightarrow>
   signal_children w sig (pre @ c # post) = (map (\<lambda>c. Signalled c sig) pre, Some e)"
  by (induction pre) auto

lemma signalled_map [simp]: "signalled (map (\<lambda>c. Signalled c sig) cs) = cs"
  by (induction cs) auto

lemma signalled_append [simp]: "signalled (xs @ ys) = signalled xs @ signalled ys"
  by (induction xs rule: signalled.induct) auto

lemma warnings_map [simp]: "warnings (map (\<lambda>c. Signalled c sig) cs) = []"
  by (induction cs) auto

lemma warnings_append [simp]: "warnings (xs @ ys) = warnings xs @ warnings ys"
  by (induction xs rule: warnings.induct) auto

lemma signal_children_subset:
  "signal_children w sig cs = (tr, r) \<Longrightarrow>
   set (signalled tr) \<subseteq> set cs \<and> warnings tr = [] \<and> (\<forall>e \<in> set tr. \<exists>c. e = Signalled c sig)"
proof (induction cs arbitrary: tr r)
  case Nil
  then show ?case by simp
next
  case (Cons c cs)
  show ?case
  proof (cases "send_signal w c sig")
    case (Some e)
    with Cons.prems show ?thesis by simp
  next
    case None
    obtain tr' r' where rec: "signal_children w sig cs = (tr', r')"
      by (cases "signal_children w sig cs")
    with None Cons.prems have "tr = Signalled c sig # tr'" by simp
    with Cons.IH [OF rec] show ?thesis by auto
  qed
qed

text \<open>
  C9. When the process identified by \<open>pid\<close> no longer exists at the call, that is
  \<^verbatim>\<open>psutil.Process(pid)\<close> raises \<^verbatim>\<open>NoSuchProcess\<close>, \<open>kill_proc_tree\<close> delivers no signal,
  logs exactly one warning and returns normally: no exception reaches the caller,
  whatever \<open>including_parent\<close> and the signal are.
\<close>

theorem kill_proc_tree_no_such_process:
  "Process w p = Some NoSuchProcess \<Longrightarrow>
   kill_proc_tree w p including_parent sig =
     ([Logged WARNING ''error while trying to kill proccess with id %s''], None)"
  by (simp add: kill_proc_tree_def kill_proc_tree_body_def)

theorem kill_proc_tree_no_such_process_witness:
  "kill_proc_tree \<lparr>Process = (\<lambda>p. Some NoSuchProcess), children = (\<lambda>p. Inr []),
                    send_signal = (\<lambda>p s. None)\<rparr> 4242 True SIGTERM =
     ([Logged WARNING ''error while trying to kill proccess with id %s''], None)"
  using kill_proc_tree_no_such_process
    [of "\<lparr>Process = (\<lambda>p. Some NoSuchProcess), children = (\<lambda>p. Inr []),
          send_signal = (\<lambda>p s. None)\<rparr>" 4242 True SIGTERM]
  by simp

text \<open>
  C10. The single handler covers the whole loop: when the children enumerated are
  \<open>pre @ c # post\<close>, every child of \<open>pre\<close> takes the signal and \<open>c\<close> has exited by the
  time it is signalled, then exactly the children of \<open>pre\<close> are signalled, in order;
  the children of \<open>post\<close> and the parent get nothing from this call, also when
  \<open>including_parent\<close> is true; one warning is logged and the call returns normally.
\<close>

theorem kill_proc_tree_child_gone:
  assumes "Process w p = None"
    and "children w p = Inr (pre @ c # post)"
    and "\<forall>x \<in> set pre. send_signal w x sig = None"
    and "send_signal w c sig = Some NoSuchProcess"
  shows "kill_proc_tree w p including_parent sig =
           (map (\<lambda>x. Signalled x sig) pre @
              [Logged WARNING ''error while trying to kill proccess with id %s''], None)
         \<and> signalled (fst (kill_proc_tree w p including_parent sig)) = pre"
proof -
  have loop: "signal_children w sig (pre @ c # post) =
                (map (\<lambda>x. Signalled x sig) pre, Some NoSuchProcess)"
    using assms(3,4) by (rule signal_children_stop)
  have res: "kill_proc_tree w p including_parent sig =
           (map (\<lambda>x. Signalled x sig) pre @
              [Logged WARNING ''error while trying to kill proccess with id %s''], None)"
    using assms(1,2) loop by (simp add: kill_proc_tree_def kill_proc_tree_body_def)
  then show ?thesis by simp
qed

theorem kill_proc_tree_child_gone_witness:
  "signalled (fst (kill_proc_tree
      \<lparr>Process = (\<lambda>p. None), children = (\<lambda>p. Inr [11, 12, 13]),
       send_signal = (\<lambda>p s. if p = 12 then Some NoSuchProcess else None)\<rparr>
      10 True SIGTERM)) = [11]
   \<and> snd (kill_proc_tree
      \<lparr>Process = (\<lambda>p. None), children = (\<lambda>p. Inr [11, 12, 13]),
       send_signal = (\<lambda>p s. if p = 12 then Some NoSuchProcess else None)\<rparr>
      10 True SIGTERM) = None"
  using kill_proc_tree_child_gone
    [of "\<lparr>Process = (\<lambda>p. None), children = (\<lambda>p. Inr [11, 12, 13]),
          send_signal = (\<lambda>p s. if p = 12 then Some NoSuchProcess else None)\<rparr>"
        10 "[11]" 12 "[13]" SIGTERM True]
  by simp

text \<open>
  C8. When the command can be split and the process can be started, \<open>run_command\<close> calls
  \<^verbatim>\<open>on_start\<close> with the handle of the process first (only its two debug lines come
  before), then \<^verbatim>\<open>on_output\<close> with each line of the merged output in the order the process
  wrote them, then \<^verbatim>\<open>on_finish\<close> with the exit code, and returns that exit code.
\<close>

theorem run_command_calls:
  assumes "(case c of Str s \<Rightarrow> shlex_split sh s | Collection xs \<Rightarrow> Some xs) = Some command"
    and "Popen sh command cwd = Some proc"
  shows "run_command sh c (Some on_start) (Some on_output) (Some on_finish) cwd =
           ([Debug ''$ %s'', Debug ''> %s''] @
            map Effect
              (on_start proc @ concat (map on_output (stdout proc)) @ on_finish (returncode proc)),
            Inr (returncode proc))"
  using assms by (simp add: run_command_def Let_def)

theorem run_command_calls_witness:
  "run_command echo_shell (Collection [''sh'', ''-c'', ''echo one; echo two; exit 3''])
     (Some (\<lambda>h. [Started (proc_pid h)])) (Some (\<lambda>l. [Output l])) (Some (\<lambda>r. [Exit r])) None =
   ([Debug ''$ %s'', Debug ''> %s'', Effect (Started 4711), Effect (Output ''one''),
     Effect (Output ''two''), Effect (Exit 3)], Inr 3)"
  using run_command_calls
    [where c = "Collection [''sh'', ''-c'', ''echo one; echo two; exit 3'']"
       and sh = echo_shell and cwd = None
       and command = "[''sh'', ''-c'', ''echo one; echo two; exit 3'']"
       and proc = "\<lparr>proc_pid = 4711, stdout = [''one'', ''two''], returncode = 3\<rparr>"
       and on_start = "\<lambda>h. [Started (proc_pid h)]" and on_output = "\<lambda>l. [Output l]"
       and on_finish = "\<lambda>r. [Exit r]"]
  by (simp add: echo_shell_def)

section \<open>Properties of lib/processor.py\<close>

subsection \<open>Reading the trace and the state\<close>


lemma hooks_append [simp]: "hooks (xs @ ys) = hooks xs @ hooks ys"
  by (induction xs rule: hooks.induct) auto

lemma finished_append [simp]: "finished (xs @ ys) = finished xs @ finished ys"
  by (induction xs rule: finished.induct) auto

lemma log_simps [simp]:
  "trace (log s l m) = trace s @ [Log l m]"
  "manager (log s l m) = manager s"
  "petitions (log s l m) = petitions s"
  "internalq (log s l m) = internalq s"
  "chans (log s l m) = chans s"
  "gc_event (log s l m) = gc_event s"
  "workers (log s l m) = workers s"
  "threads (log s l m) = threads s"
  by (simp_all add: log_def)

subsection \<open>The message thread\<close>

text \<open>
  C1. When the manager converts the message read into a petition \<open>p\<close> and \<open>exists\<close> holds
  for the id of \<open>p\<close>, the turn of \<^verbatim>\<open>_process\<close> puts the line ``message with ID ... already
  exists'' and then the status code 1 on the result channel of \<open>p\<close>, leaves every other
  channel as it was, and leaves the internal priority queue unchanged: \<open>p\<close> is not put.
\<close>

theorem process_rejects_running:
  assumes "convert_to_petition (manager s) (hooks (trace s)) m = Some p"
    and "exists s (Id (p_id p))"
  shows "chans (process_item s (Some m)) (p_queue p) =
           chans s (p_queue p) @ [Line (already_exists (p_id p)), Status 1]
         \<and> internalq (process_item s (Some m)) = internalq s
         \<and> (\<forall>c. c \<noteq> p_queue p \<longrightarrow> chans (process_item s (Some m)) c = chans s c)"
  using assms
  by (simp add: process_item_def exists_def chan_put_def Let_def)

theorem process_rejects_running_witness:
  "exists running_a (Id (p_id unit_b))
   \<and> chans (process_item running_a (Some (Message 5 ''b''))) 1 =
       [Line (already_exists 5), Status 1]
   \<and> internalq (process_item running_a (Some (Message 5 ''b''))) = []"
  using process_rejects_running [of running_a "Message 5 ''b''" unit_b]
  by (simp add: running_a_def fresh_def run_def initial_def tracking_manager_def by_body_def
        unit_a_def unit_b_def enqueue_def t_process_def process_item_def log_def exists_def
        pq_put_def chan_put_def t_internal_def pq_get_def internal_process_item_def
        t_launch_def launch_step_def assign_pid_def Let_def)

subsection \<open>The launch thread\<close>

lemma assign_pid_simps [simp]:
  "trace (assign_pid p s pr) = trace s @ [Log DEBUG ''assigning pid to \"%d\"'', OnStart p]"
  "petitions (assign_pid p s pr) =
     (petitions s)(p_id p \<mapsto> (case pr of Pid i \<Rightarrow> i | Handle h \<Rightarrow> proc_pid h))"
  "gc_event (assign_pid p s pr) = gc_event s"
  "internalq (assign_pid p s pr) = internalq s"
  "workers (assign_pid p s pr) = workers s"
  by (simp_all add: assign_pid_def Let_def)

lemma foldl_assign_pid:
  "trace (foldl (assign_pid p) s prs) =
     trace s @ concat (map (\<lambda>pr. [Log DEBUG ''assigning pid to \"%d\"'', OnStart p]) prs)
   \<and> (petitions (foldl (assign_pid p) s prs))(p_id p := None) = (petitions s)(p_id p := None)
   \<and> gc_event (foldl (assign_pid p) s prs) = gc_event s
   \<and> internalq (foldl (assign_pid p) s prs) = internalq s
   \<and> workers (foldl (assign_pid p) s prs) = workers s"
  by (induction prs arbitrary: s) simp_all

lemma finished_assigns [simp]:
  "finished (concat (map (\<lambda>pr. [Log l m, OnStart p]) prs)) = []"
  by (induction prs) simp_all

text \<open>
  C2, as the code has it. For a petition whose condition holds, \<open>start\<close> runs the action and
  then, however the action ended, removes the id from the registry (nothing else of the
  registry changes), sets the GC event and calls \<^verbatim>\<open>on_finish\<close> once, as its last effect.
  An exception of the action that is an instance of \<^verbatim>\<open>Exception\<close> is logged as a warning
  and stops in \<open>start\<close>; any other exception is not logged and leaves \<open>start\<close> after the
  \<^verbatim>\<open>finally\<close> block.
\<close>

theorem start_ready:
  assumes "p_condition p"
  shows "petitions (fst (start s p)) = (petitions s)(p_id p := None)
       \<and> gc_event (fst (start s p))
       \<and> trace (fst (start s p)) =
           trace s @
           [Log DEBUG ''launching petition \"%s\"'',
            Log DEBUG ''petition \"%s\" satisfied condition'', Action p] @
           concat (map (\<lambda>pr. [Log DEBUG ''assigning pid to \"%d\"'', OnStart p])
                       (fst (p_action p))) @
           (case snd (p_action p) of
              Returned \<Rightarrow> []
            | Raised e \<Rightarrow>
                if isinstance_Exception e
                then [Log WARNING ''unhandled exception while running petition \"%s\" -> \"%s\"'']
                else []) @
           [Log DEBUG ''petition \"%s\" finished, triggering callbacks'', OnFinish p]
       \<and> finished (trace (fst (start s p))) = finished (trace s) @ [p]
       \<and> snd (start s p) =
           (case snd (p_action p) of
              Returned \<Rightarrow> None
            | Raised e \<Rightarrow> if isinstance_Exception e then None else Some e)"
proof -
  let ?s1 = "(log (log s DEBUG ''launching petition \"%s\"'') DEBUG
                 ''petition \"%s\" satisfied condition'')\<lparr>trace :=
                 trace s @ [Log DEBUG ''launching petition \"%s\"'',
                   Log DEBUG ''petition \"%s\" satisfied condition'', Action p]\<rparr>"
  note f = foldl_assign_pid [of p ?s1 "fst (p_action p)"]
  show ?thesis
    using assms f
    by (cases "snd (p_action p)")
       (simp_all add: start_def run_action_def except_Exception_def finally_block_def Let_def
          split: prod.splits)
qed

theorem start_ready_witness:
  "p_condition unit_d
   \<and> petitions (fst (start running_a unit_d)) 8 = None
   \<and> petitions (fst (start running_a unit_d)) 5 = Some 100
   \<and> gc_event (fst (start running_a unit_d))
   \<and> finished (trace (fst (start running_a unit_d))) = [unit_d]
   \<and> snd (start running_a unit_d) = None"
  using start_ready [of unit_d running_a]
  by (simp add: running_a_def fresh_def run_def initial_def tracking_manager_def by_body_def
        unit_a_def unit_d_def enqueue_def t_process_def process_item_def log_def exists_def
        pq_put_def chan_put_def t_internal_def pq_get_def internal_process_item_def
        t_launch_def launch_step_def assign_pid_def Let_def)

text \<open>
  The action of \<open>unit_c\<close> raises \<^verbatim>\<open>SystemExit\<close>, which is no instance of \<^verbatim>\<open>Exception\<close>: the
  exception leaves \<open>start\<close>, and no warning is logged.
\<close>

theorem start_propagates_counterexample:
  "p_condition unit_c
   \<and> snd (start fresh unit_c) = Some (PyExc False ''SystemExit'')
   \<and> [e \<leftarrow> trace (fst (start fresh unit_c)). case e of Log l m \<Rightarrow> l = WARNING | _ \<Rightarrow> False] = []"
  by (simp add: start_def run_action_def except_Exception_def finally_block_def unit_c_def
        fresh_def initial_def log_def Let_def)



subsection \<open>The signal consumer\<close>

lemma kill_children_only:
  assumes "kill_proc_tree w p False sig = (tr, r)"
  shows "set (signalled tr) \<subseteq> (case children w p of Inr cs \<Rightarrow> set cs | Inl e \<Rightarrow> {})
         \<and> (\<forall>q sg. Signalled q sg \<in> set tr \<longrightarrow> sg = sig)"
proof (cases "Process w p")
  case (Some e)
  with assms show ?thesis
    by (cases e) (auto simp: kill_proc_tree_def kill_proc_tree_body_def)
next
  case None
  show ?thesis
  proof (cases "children w p")
    case (Inl e)
    with None assms show ?thesis
      by (cases e) (auto simp: kill_proc_tree_def kill_proc_tree_body_def)
  next
    case (Inr cs)
    obtain tr' r' where loop: "signal_children w sig cs = (tr', r')"
      by (cases "signal_children w sig cs")
    from signal_children_subset [OF loop]
    have sub: "set (signalled tr') \<subseteq> set cs" and only: "\<forall>e \<in> set tr'. \<exists>c. e = Signalled c sig"
      by simp_all
    have "tr = tr' \<or> tr = tr' @ [Logged WARNING ''error while trying to kill proccess with id %s'']"
      using assms None Inr loop
      by (auto simp: kill_proc_tree_def kill_proc_tree_body_def
               split: option.splits psutil_error.splits)
    then show ?thesis
      using sub only Inr by auto
  qed
qed

text \<open>
  C3. One turn of \<^verbatim>\<open>_internal_signal_handler\<close> for a value that normalises to the id \<open>i\<close>.
  If \<open>i\<close> is not in the registry, the turn only logs (a debug line and the warning), the
  state is otherwise unchanged and nothing is raised. If the registry holds \<open>pid\<close> for \<open>i\<close>,
  the effects are those of \<open>kill_proc_tree w pid False SIGINT\<close>: every signal delivered is
  \<open>SIGINT\<close> and goes to one of the children enumerated for \<open>pid\<close>, so \<open>pid\<close> itself, which
  is not among its own children, gets none; the registry is unchanged.
\<close>

theorem signal_consumer:
  assumes "normalize m = Some i"
  shows "(petitions s i = None \<longrightarrow>
            internal_signal_item w s m =
              (s\<lparr>trace := trace s @
                   [Log DEBUG ''received signal petition for message with ID \"%d\"'',
                    Log WARNING ''message with ID \"%d\" not found or not running!'']\<rparr>, None))
       \<and> (\<forall>pid. petitions s i = Some pid \<longrightarrow>
            trace (fst (internal_signal_item w s m)) =
              trace s @ [Log DEBUG ''received signal petition for message with ID \"%d\"''] @
              map Sys (fst (kill_proc_tree w pid False SIGINT)) @
              (if snd (kill_proc_tree w pid False SIGINT) = None
               then [Log DEBUG ''sent signal to process \"%d\" and all of its children'']
               else [])
          \<and> snd (internal_signal_item w s m) = snd (kill_proc_tree w pid False SIGINT)
          \<and> petitions (fst (internal_signal_item w s m)) = petitions s
          \<and> set (signalled (fst (kill_proc_tree w pid False SIGINT)))
               \<subseteq> (case children w pid of Inr cs \<Rightarrow> set cs | Inl e \<Rightarrow> {})
          \<and> (\<forall>q sg. Signalled q sg \<in> set (fst (kill_proc_tree w pid False SIGINT)) \<longrightarrow> sg = SIGINT)
          \<and> (pid \<notin> (case children w pid of Inr cs \<Rightarrow> set cs | Inl e \<Rightarrow> {}) \<longrightarrow>
               pid \<notin> set (signalled (fst (kill_proc_tree w pid False SIGINT)))))"
proof -
  have absent: "internal_signal_item w s m =
              (s\<lparr>trace := trace s @
                   [Log DEBUG ''received signal petition for message with ID \"%d\"'',
                    Log WARNING ''message with ID \"%d\" not found or not running!'']\<rparr>, None)"
    if "petitions s i = None"
    using assms that by (simp add: internal_signal_item_def log_def)
  have present: "trace (fst (internal_signal_item w s m)) =
              trace s @ [Log DEBUG ''received signal petition for message with ID \"%d\"''] @
              map Sys (fst (kill_proc_tree w pid False SIGINT)) @
              (if snd (kill_proc_tree w pid False SIGINT) = None
               then [Log DEBUG ''sent signal to process \"%d\" and all of its children'']
               else [])
          \<and> snd (internal_signal_item w s m) = snd (kill_proc_tree w pid False SIGINT)
          \<and> petitions (fst (internal_signal_item w s m)) = petitions s
          \<and> set (signalled (fst (kill_proc_tree w pid False SIGINT)))
               \<subseteq> (case children w pid of Inr cs \<Rightarrow> set cs | Inl e \<Rightarrow> {})
          \<and> (\<forall>q sg. Signalled q sg \<in> set (fst (kill_proc_tree w pid False SIGINT)) \<longrightarrow> sg = SIGINT)
          \<and> (pid \<notin> (case children w pid of Inr cs \<Rightarrow> set cs | Inl e \<Rightarrow> {}) \<longrightarrow>
               pid \<notin> set (signalled (fst (kill_proc_tree w pid False SIGINT))))"
    if reg: "petitions s i = Some pid" for pid
  proof -
    obtain tr r where k: "kill_proc_tree w pid False SIGINT = (tr, r)"
      by (cases "kill_proc_tree w pid False SIGINT")
    note only = kill_children_only [OF k]
    have step: "internal_signal_item w s m =
        (s\<lparr>trace := trace s @
            [Log DEBUG ''received signal petition for message with ID \"%d\"''] @ map Sys tr @
            (if r = None
             then [Log DEBUG ''sent signal to process \"%d\" and all of its children'']
             else [])\<rparr>, r)"
      using assms reg k by (cases r) (simp_all add: internal_signal_item_def log_def)
    show ?thesis
      using only by (auto simp: step k)
  qed
  from absent present show ?thesis by blast
qed

theorem signal_consumer_witness:
  "petitions running_a 5 = Some 100
   \<and> signalled (fst (kill_proc_tree tree_os 100 False SIGINT)) = [101, 102]
   \<and> snd (internal_signal_item tree_os running_a (Some (Id 5))) = None
   \<and> petitions running_a 9 = None
   \<and> internal_signal_item tree_os running_a (Some (Msg (Message 9 ''x''))) =
       (running_a\<lparr>trace := trace running_a @
          [Log DEBUG ''received signal petition for message with ID \"%d\"'',
           Log WARNING ''message with ID \"%d\" not found or not running!'']\<rparr>, None)"
proof -
  have regs: "petitions running_a 5 = Some 100" "petitions running_a 9 = None"
    by (simp_all add: running_a_def fresh_def run_def initial_def tracking_manager_def
          by_body_def unit_a_def enqueue_def t_process_def process_item_def log_def exists_def
          pq_put_def chan_put_def t_internal_def pq_get_def internal_process_item_def
          t_launch_def launch_step_def assign_pid_def Let_def)
  have kill: "kill_proc_tree tree_os 100 False SIGINT =
                ([Signalled 101 SIGINT, Signalled 102 SIGINT], None)"
    by (simp add: kill_proc_tree_def kill_proc_tree_body_def tree_os_def)
  show ?thesis
    using signal_consumer [of "Some (Id 5)" 5 running_a tree_os]
      signal_consumer [of "Some (Msg (Message 9 ''x''))" 9 running_a tree_os]
    by (simp add: regs kill normalize_def)
qed

subsection \<open>Construction\<close>

text \<open>
  C5, as the code has it. A first construction with an argument missing raises
  \<^verbatim>\<open>ValueError\<close> at once and sets no attribute: no queue, no thread, no flag \<open>running\<close>.
  The bare instance that \<^verbatim>\<open>__new__\<close> has stored stays in the class, still flagged
  \<^verbatim>\<open>__must_init__\<close>, so every later construction does what a first construction with the
  same arguments does.
\<close>

theorem processor_missing_argument:
  assumes "q = None \<or> f = None \<or> m = None"
  shows "Processor None q f m = (Some \<lparr>must_init = True, attrs = None\<rparr>, Inl ValueError)
       \<and> (\<forall>q' f' m'. Processor (fst (Processor None q f m)) q' f' m' = Processor None q' f' m')"
proof -
  have first: "Processor None q f m = (Some \<lparr>must_init = True, attrs = None\<rparr>, Inl ValueError)"
    using assms
    by (auto simp: Processor_def new_def init_def Let_def split: option.splits)
  have later: "Processor (Some \<lparr>must_init = True, attrs = None\<rparr>) q' f' m' = Processor None q' f' m'"
    for q' f' m'
    by (simp add: Processor_def new_def Let_def)
  from first later show ?thesis by simp
qed

theorem processor_missing_argument_witness:
  "Processor None (Some []) None (Some (tracking_manager by_body)) =
     (Some \<lparr>must_init = True, attrs = None\<rparr>, Inl ValueError)
   \<and> Processor (fst (Processor None (Some []) None (Some (tracking_manager by_body))))
        (Some []) (Some []) (Some (tracking_manager by_body)) =
     (Some \<lparr>must_init = False, attrs = Some fresh\<rparr>,
      Inr \<lparr>must_init = False, attrs = Some fresh\<rparr>)"
proof -
  have good: "Processor None (Some []) (Some []) (Some (tracking_manager by_body)) =
     (Some \<lparr>must_init = False, attrs = Some fresh\<rparr>,
      Inr \<lparr>must_init = False, attrs = Some fresh\<rparr>)"
    by (simp add: Processor_def new_def init_def fresh_def Let_def)
  have missing: "Some ([] :: message option list) = None \<or> (None :: target option list option) = None
                 \<or> Some (tracking_manager by_body) = None"
    by simp
  note t = processor_missing_argument [OF missing]
  from t have a: "Processor None (Some []) None (Some (tracking_manager by_body)) =
     (Some \<lparr>must_init = True, attrs = None\<rparr>, Inl ValueError)"
    by (rule conjunct1)
  from t have b: "Processor (fst (Processor None (Some []) None (Some (tracking_manager by_body))))
        (Some []) (Some []) (Some (tracking_manager by_body)) =
      Processor None (Some []) (Some []) (Some (tracking_manager by_body))"
    by blast
  show ?thesis
    using a b good by simp
qed

text \<open>After the failed construction the class attribute is not \<open>None\<close>.\<close>

theorem processor_keeps_instance_counterexample:
  "snd (Processor None None None None) = Inl ValueError
   \<and> fst (Processor None None None None) \<noteq> None"
  by (simp add: Processor_def new_def init_def Let_def)

subsection \<open>The garbage collector\<close>

lemma both_finished_state:
  "threads both_finished = [0, 1] \<and> gc_event both_finished \<and> gc_t both_finished = Blocked
   \<and> \<not> is_alive both_finished 0 \<and> \<not> is_alive both_finished 1"
  by (simp add: both_finished_def fresh_def run_def initial_def tracking_manager_def by_body_def
        unit_b_def enqueue_def t_process_def process_item_def log_def exists_def
        pq_put_def chan_put_def t_internal_def pq_get_def internal_process_item_def
        t_launch_def launch_step_def requeue_def t_gc_def is_alive_def Let_def)

lemma t_gc_blocked:
  assumes "gc_t s = Blocked" and "gc_event s"
  shows "threads (t_gc s) = gc_scan (is_alive s) 0 (threads s)"
    and "is_alive (t_gc s) = is_alive s"
proof -
  have "is_alive (s\<lparr>gc_event := False\<rparr>) = is_alive s"
    by (simp add: is_alive_def fun_eq_iff)
  then show "threads (t_gc s) = gc_scan (is_alive s) 0 (threads s)"
    using assms by (simp add: t_gc_def gc_item_def Let_def)
  show "is_alive (t_gc s) = is_alive s"
    using assms by (simp add: t_gc_def gc_item_def is_alive_def fun_eq_iff Let_def)
qed

lemma gc_scan_pair: "\<not> alive a \<Longrightarrow> \<not> alive b \<Longrightarrow> gc_scan alive 0 [a, b] = [b]"
  by (simp add: gc_scan.simps)

text \<open>
  C4 fails on the code. In \<open>both_finished\<close> the ledger holds the threads 0 and 1, both
  ended, and the event is set. The wake-up removes thread 0; the list iterator then
  stands at index 1 of a list of length 1, so the scan ends and thread 1, which had
  ended before the scan began, is still in the ledger.
\<close>

theorem gc_leaves_finished_thread:
  "threads both_finished = [0, 1]
   \<and> \<not> is_alive both_finished 0 \<and> \<not> is_alive both_finished 1
   \<and> gc_event both_finished \<and> gc_t both_finished = Blocked
   \<and> threads (t_gc both_finished) = [1]
   \<and> \<not> is_alive (t_gc both_finished) 1"
  using both_finished_state
  by (simp add: t_gc_blocked gc_scan_pair)

subsection \<open>The registry invariant\<close>


lemma registry_inv_mono:
  assumes "registry_inv s" and "petitions s' = petitions s"
    and "set (workers s) \<subseteq> set (workers s')"
  shows "registry_inv s'"
  using assms unfolding registry_inv_def by (metis subsetD)

lemma chan_put_frame [simp]:
  "petitions (chan_put s c x) = petitions s" "workers (chan_put s c x) = workers s"
  by (simp_all add: chan_put_def)

lemma process_item_frame:
  "petitions (process_item s m) = petitions s \<and> workers (process_item s m) = workers s"
  by (simp add: process_item_def Let_def split: option.splits)

lemma t_process_frame:
  "petitions (t_process s) = petitions s \<and> workers (t_process s) = workers s"
  by (simp add: t_process_def process_item_frame split: tstate.splits list.splits)

lemma t_finished_frame:
  "petitions (t_finished s) = petitions s \<and> workers (t_finished s) = workers s"
  by (simp add: t_finished_def split: tstate.splits list.splits)

lemma internal_signal_item_frame:
  "petitions (fst (internal_signal_item w s m)) = petitions s
   \<and> workers (fst (internal_signal_item w s m)) = workers s"
  by (simp add: internal_signal_item_def Let_def split: option.splits prod.splits)

lemma t_signal_frame:
  "petitions (t_signal w s) = petitions s \<and> workers (t_signal w s) = workers s"
proof (cases "signal_t s")
  case Blocked
  show ?thesis
  proof (cases "signals s")
    case Nil
    with Blocked show ?thesis by (simp add: t_signal_def)
  next
    case (Cons m rest)
    obtain s' r where it: "internal_signal_item w (s\<lparr>signals := rest\<rparr>) m = (s', r)"
      by (cases "internal_signal_item w (s\<lparr>signals := rest\<rparr>) m")
    from internal_signal_item_frame [of w "s\<lparr>signals := rest\<rparr>" m] it
    have "petitions s' = petitions s \<and> workers s' = workers s" by simp
    with Blocked Cons it show ?thesis
      by (cases r) (simp_all add: t_signal_def)
  qed
qed (simp_all add: t_signal_def)

lemma t_gc_frame:
  "petitions (t_gc s) = petitions s \<and> workers (t_gc s) = workers s"
  by (simp add: t_gc_def gc_item_def Let_def split: tstate.splits)

lemma t_internal_frame:
  "petitions (t_internal k s) = petitions s \<and> set (workers s) \<subseteq> set (workers (t_internal k s))"
  by (auto simp: t_internal_def internal_process_item_def Let_def
           split: tstate.splits option.splits qitem.splits)

lemma public_frame:
  "petitions (enqueue s m) = petitions s \<and> workers (enqueue s m) = workers s"
  "petitions (finish s t) = petitions s \<and> workers (finish s t) = workers s"
  "petitions (shutdown s) = petitions s \<and> workers (shutdown s) = workers s"
  by (simp_all add: enqueue_def finish_def shutdown_def Let_def)


lemma in_set_update_other:
  assumes "x \<in> set xs" and "x \<noteq> xs ! k"
  shows "x \<in> set (xs[k := y])"
proof -
  from assms(1) obtain j where j: "j < length xs" "xs ! j = x"
    by (auto simp: in_set_conv_nth)
  with assms(2) have "j \<noteq> k" by auto
  with j have "(xs[k := y]) ! j = x" "j < length (xs[k := y])" by simp_all
  then show ?thesis by (metis nth_mem)
qed

lemma except_Exception_frame:
  "petitions (fst (except_Exception s out)) = petitions s
   \<and> workers (fst (except_Exception s out)) = workers s"
  by (simp add: except_Exception_def split: outcome.splits)

lemma finally_block_frame:
  "petitions (finally_block s p) = (petitions s)(p_id p := None)
   \<and> workers (finally_block s p) = workers s"
  by (simp add: finally_block_def Let_def)

lemma requeue_frame:
  "petitions (requeue s p) = petitions s \<and> workers (requeue s p) = workers s"
  by (simp add: requeue_def Let_def)

text \<open>What a step of a launch thread does to the registry and to its own record.\<close>

lemma launch_step_cases:
  assumes "launch_step s wk = (s', wk')"
  shows "workers s' = workers s \<and> w_petition wk' = w_petition wk
       \<and> ((petitions s' = petitions s \<and> (in_interval wk \<longrightarrow> in_interval wk'))
          \<or> (\<exists>pid. petitions s' = (petitions s)(p_id (w_petition wk) \<mapsto> pid) \<and> in_interval wk')
          \<or> petitions s' = (petitions s)(p_id (w_petition wk) := None))"
proof (cases "w_phase wk")
  case CHECK_CONDITION
  with assms show ?thesis
    by (auto simp: launch_step_def Let_def requeue_frame in_interval_def split: if_splits)
next
  case RUN_ACTION
  show ?thesis
  proof (cases "w_todo wk")
    case Nil
    obtain s3 raised where e: "except_Exception s (snd (p_action (w_petition wk))) = (s3, raised)"
      by (cases "except_Exception s (snd (p_action (w_petition wk)))")
    from except_Exception_frame [of s "snd (p_action (w_petition wk))"] e
    have "petitions s3 = petitions s \<and> workers s3 = workers s" by simp
    with assms RUN_ACTION Nil e show ?thesis
      by (auto simp: launch_step_def Let_def in_interval_def)
  next
    case (Cons pr rest)
    with assms RUN_ACTION show ?thesis
      by (auto simp: launch_step_def Let_def in_interval_def)
  qed
next
  case CLEANUP
  with assms show ?thesis
    by (auto simp: launch_step_def Let_def finally_block_frame)
next
  case FINISHED
  with assms show ?thesis
    by (auto simp: launch_step_def Let_def)
qed

lemma t_launch_inv:
  assumes inv: "registry_inv s"
  shows "registry_inv (t_launch k s)"
proof (cases "k < length (workers s)")
  case False
  with inv show ?thesis by (simp add: t_launch_def)
next
  case True
  let ?wk = "workers s ! k"
  obtain s' wk' where st: "launch_step s ?wk = (s', wk')"
    by (cases "launch_step s ?wk")
  note c = launch_step_cases [OF st]
  have res: "t_launch k s = s'\<lparr>workers := (workers s)[k := wk']\<rparr>"
    using True st c by (simp add: t_launch_def)
  have mine: "wk' \<in> set ((workers s)[k := wk'])"
    using True by (simp add: set_update_memI)
  have "\<exists>wk \<in> set ((workers s)[k := wk']). p_id (w_petition wk) = i \<and> in_interval wk"
    if i: "i \<in> dom (petitions s')" for i
  proof (cases "p_id (w_petition ?wk) = i \<and> in_interval wk'")
    case True
    with c have "p_id (w_petition wk') = i \<and> in_interval wk'" by simp
    with mine show ?thesis by blast
  next
    case other: False
    from c i other have old: "i \<in> dom (petitions s)"
      by (auto split: if_splits)
    with inv obtain wk where wk: "wk \<in> set (workers s)" "p_id (w_petition wk) = i" "in_interval wk"
      unfolding registry_inv_def by blast
    have "wk \<noteq> ?wk"
    proof
      assume eq: "wk = ?wk"
      with wk other have "\<not> in_interval wk'" by simp
      with c eq wk(3) have "petitions s' = (petitions s)(p_id (w_petition ?wk) := None)"
        by auto
      with i eq wk(2) show False by auto
    qed
    with wk(1) have "wk \<in> set ((workers s)[k := wk'])"
      by (rule in_set_update_other)
    with wk show ?thesis by blast
  qed
  then show ?thesis
    unfolding registry_inv_def res by simp
qed

lemma step_inv: "registry_inv s \<Longrightarrow> registry_inv (step w e s)"
proof (cases e)
  case (LaunchT k)
  assume "registry_inv s"
  with LaunchT show ?thesis by (simp add: t_launch_inv)
next
  case (InternalT k)
  assume "registry_inv s"
  with InternalT show ?thesis
    using t_internal_frame [of k s] by (auto intro: registry_inv_mono)
qed (auto intro: registry_inv_mono
       simp: public_frame t_process_frame t_finished_frame t_signal_frame t_gc_frame)

lemma run_inv: "registry_inv s \<Longrightarrow> registry_inv (run w es s)"
  unfolding run_def by (induction es arbitrary: s) (simp_all add: step_inv)

lemma initial_inv: "registry_inv (initial q f m)"
  by (simp add: registry_inv_def initial_def)


text \<open>
  C7, as the code has it. The registry invariant holds in the state \<^verbatim>\<open>__init__\<close> sets up,
  every operation of the processor (a public method or a step of any thread) keeps it,
  and so it holds after every run: an id is in the registry only while a launch thread
  of a petition with that id is between its first call of \<^verbatim>\<open>assign_pid\<close> and the end of
  its \<^verbatim>\<open>finally\<close> block. An id none of whose launch threads is in that interval (never
  launched, or no call of \<^verbatim>\<open>assign_pid\<close> yet, or cleaned up) has no entry.
\<close>

theorem registry_invariant:
  "registry_inv (initial q f m)
   \<and> (registry_inv s \<longrightarrow> registry_inv (step w e s))
   \<and> registry_inv (run w es (initial q f m))
   \<and> (\<forall>i. (\<forall>wk \<in> set (workers (run w es (initial q f m))).
               p_id (w_petition wk) = i \<longrightarrow> \<not> in_interval wk) \<longrightarrow>
            petitions (run w es (initial q f m)) i = None)"
proof -
  have reach: "registry_inv (run w es (initial q f m))"
    using initial_inv by (rule run_inv)
  have "petitions (run w es (initial q f m)) i = None"
    if "\<forall>wk \<in> set (workers (run w es (initial q f m))).
          p_id (w_petition wk) = i \<longrightarrow> \<not> in_interval wk" for i
    using reach that unfolding registry_inv_def by blast
  with reach initial_inv step_inv show ?thesis by blast
qed

lemma running_a_state:
  "petitions running_a 5 = Some 100 \<and> petitions running_a 6 = None
   \<and> workers running_a =
       [\<lparr>w_petition = unit_a, w_phase = RUN_ACTION, w_todo = [], w_assigned = True,
         w_raised = None\<rparr>]"
  by (simp add: running_a_def fresh_def run_def initial_def tracking_manager_def by_body_def
        unit_a_def enqueue_def t_process_def process_item_def log_def exists_def
        pq_put_def chan_put_def t_internal_def pq_get_def internal_process_item_def
        t_launch_def launch_step_def assign_pid_def Let_def)

theorem registry_invariant_witness:
  "registry_inv fresh
   \<and> registry_inv (step quiet_os (Enqueue (Message 5 ''a'')) fresh)
   \<and> registry_inv running_a
   \<and> petitions running_a 5 = Some 100
   \<and> (\<exists>wk \<in> set (workers running_a). p_id (w_petition wk) = 5 \<and> in_interval wk)
   \<and> petitions running_a 6 = None"
proof -
  note t = registry_invariant
    [of "[]" "[]" "tracking_manager by_body" fresh quiet_os "Enqueue (Message 5 ''a'')"
        "[Enqueue (Message 5 ''a''), ProcessT, ProcessT, InternalT 0, InternalT 0,
          LaunchT 0, LaunchT 0]"]
  from t have a: "registry_inv fresh" by (simp add: fresh_def)
  from t a have b: "registry_inv (step quiet_os (Enqueue (Message 5 ''a'')) fresh)" by blast
  from t have c: "registry_inv running_a" by (simp add: running_a_def fresh_def)
  have "5 \<in> dom (petitions running_a)"
    using running_a_state by auto
  with c have d: "\<exists>wk \<in> set (workers running_a). p_id (w_petition wk) = 5 \<and> in_interval wk"
    unfolding registry_inv_def by blast
  from a b c d running_a_state show ?thesis by simp
qed

text \<open>
  The registry is keyed by id, not by unit. In \<open>shared_id\<close> the unit \<open>unit_b\<close> waits in the
  internal queue and no launch thread has ever been made for it, yet the registry has an
  entry for its id: the one \<open>unit_a\<close>, which has the same id, has made.
\<close>

theorem registry_shared_id_counterexample:
  "Pet unit_b \<in> set (internalq shared_id)
   \<and> [wk \<leftarrow> workers shared_id. w_petition wk = unit_b] = []
   \<and> unit_a \<noteq> unit_b
   \<and> petitions shared_id (p_id unit_b) = Some 100"
  by (simp add: shared_id_def fresh_def run_def initial_def tracking_manager_def by_body_def
        unit_a_def unit_b_def enqueue_def t_process_def process_item_def log_def exists_def
        pq_put_def chan_put_def t_internal_def pq_get_def internal_process_item_def
        t_launch_def launch_step_def assign_pid_def Let_def)

subsection \<open>The steps of a launch thread make up \<^verbatim>\<open>_start\<close>\<close>

text \<open>
  A launch thread that is left to run takes one step for the condition, one for each call
  of \<^verbatim>\<open>assign_pid\<close>, one for the end of the action and one for \<^verbatim>\<open>finally\<close>. Together
  they leave the state that \<open>start\<close> leaves, and the thread's record holds the exception
  that \<open>start\<close> lets through; a thread whose condition fails is finished after the
  first step and the others change nothing.
\<close>

lemma t_launch_finished:
  assumes "k < length (workers s)" and "w_phase (workers s ! k) = FINISHED"
  shows "(t_launch k ^^ n) s = s"
proof -
  have "t_launch k s = s"
    using assms by (simp add: t_launch_def launch_step_def)
  then show ?thesis by (induction n) simp_all
qed

lemma assign_pid_workers:
  "assign_pid p (s\<lparr>workers := ws\<rparr>) pr = (assign_pid p s pr)\<lparr>workers := ws\<rparr>"
  by (simp add: assign_pid_def log_def Let_def)

lemma foldl_assign_pid_workers:
  "foldl (assign_pid p) (s\<lparr>workers := ws\<rparr>) prs = (foldl (assign_pid p) s prs)\<lparr>workers := ws\<rparr>"
  by (induction prs arbitrary: s) (simp_all add: assign_pid_workers)

lemma t_launch_assigning:
  assumes "k < length (workers s)" and "workers s ! k = wk"
    and "w_phase wk = RUN_ACTION" and "w_todo wk = todo" and "w_petition wk = p"
  shows "(t_launch k ^^ length todo) s =
           (foldl (assign_pid p) s todo)
             \<lparr>workers := (workers s)[k := wk\<lparr>w_todo := [], w_assigned := (w_assigned wk \<or> todo \<noteq> [])\<rparr>]\<rparr>"
  using assms
proof (induction todo arbitrary: s wk)
  case Nil
  have "wk\<lparr>w_todo := [], w_assigned := (w_assigned wk \<or> [] \<noteq> ([] :: proc list))\<rparr> = wk"
    using Nil.prems(4) by (cases wk) simp
  moreover have "(workers s)[k := wk] = workers s"
    using Nil.prems(2) by (metis list_update_id)
  ultimately show ?case by simp
next
  case (Cons pr rest)
  let ?wk = "wk\<lparr>w_todo := rest, w_assigned := True\<rparr>"
  let ?s = "(assign_pid p s pr)\<lparr>workers := (workers s)[k := ?wk]\<rparr>"
  have one: "t_launch k s = ?s"
    using Cons.prems by (simp add: t_launch_def launch_step_def)
  have "(t_launch k ^^ length rest) ?s =
          (foldl (assign_pid p) ?s rest)
            \<lparr>workers := (workers ?s)[k := ?wk\<lparr>w_todo := [], w_assigned := (w_assigned ?wk \<or> rest \<noteq> [])\<rparr>]\<rparr>"
    using Cons.prems by (intro Cons.IH) simp_all
  then show ?case
    by (simp add: funpow_swap1 one foldl_assign_pid_workers)
qed

lemma except_Exception_workers:
  "except_Exception (s\<lparr>workers := ws\<rparr>) out =
     ((fst (except_Exception s out))\<lparr>workers := ws\<rparr>, snd (except_Exception s out))"
  by (simp add: except_Exception_def log_def split: outcome.splits)

lemma finally_block_workers:
  "finally_block (s\<lparr>workers := ws\<rparr>) p = (finally_block s p)\<lparr>workers := ws\<rparr>"
  by (simp add: finally_block_def log_def Let_def)

lemma funpow_split: "(f ^^ (n + 3)) s = f (f ((f ^^ n) (f s)))"
proof -
  have "(f ^^ (n + 3)) s = f (f (f ((f ^^ n) s)))"
    by (simp add: numeral_3_eq_3)
  moreover have "f ((f ^^ n) s) = (f ^^ n) (f s)"
    by (rule funpow_swap1)
  ultimately show ?thesis by simp
qed

lemma launch_thread_is_start:
  assumes k: "k < length (workers s)"
    and w0: "workers s ! k =
               \<lparr>w_petition = p, w_phase = CHECK_CONDITION, w_todo = [], w_assigned = False,
                w_raised = None\<rparr>"
  shows "(t_launch k ^^ (length (fst (p_action p)) + 3)) s =
           (fst (start s p))
             \<lparr>workers := (workers s)
                [k := \<lparr>w_petition = p, w_phase = FINISHED, w_todo = [],
                       w_assigned = (p_condition p \<and> fst (p_action p) \<noteq> []),
                       w_raised = snd (start s p)\<rparr>]\<rparr>"
proof (cases "p_condition p")
  case False
  let ?s1 = "t_launch k s"
  have one: "?s1 = (fst (start s p))
      \<lparr>workers := (workers s)
         [k := \<lparr>w_petition = p, w_phase = FINISHED, w_todo = [], w_assigned = False,
                w_raised = None\<rparr>]\<rparr>"
    using k w0 False by (simp add: t_launch_def launch_step_def start_def requeue_def Let_def)
  have fin: "k < length (workers ?s1)" "w_phase (workers ?s1 ! k) = FINISHED"
    using k by (simp_all add: one)
  have idle: "t_launch k ?s1 = ?s1"
    using t_launch_finished [OF fin, of 1] by simp
  have "(t_launch k ^^ length (fst (p_action p))) ?s1 = ?s1"
    using fin by (rule t_launch_finished)
  then have "(t_launch k ^^ (length (fst (p_action p)) + 3)) s = ?s1"
    by (simp only: funpow_split idle)
  then show ?thesis using False by (simp add: one start_def requeue_def Let_def)
next
  case True
  let ?todo = "fst (p_action p)"
  let ?wk1 = "\<lparr>w_petition = p, w_phase = RUN_ACTION, w_todo = ?todo, w_assigned = False,
               w_raised = None\<rparr>"
  let ?b = "(log (log s DEBUG ''launching petition \"%s\"'') DEBUG
               ''petition \"%s\" satisfied condition'')"
  let ?a = "?b\<lparr>trace := trace ?b @ [Action p]\<rparr>"
  let ?s1 = "?a\<lparr>workers := (workers s)[k := ?wk1]\<rparr>"
  have one: "t_launch k s = ?s1"
    using k w0 True by (simp add: t_launch_def launch_step_def Let_def)
  let ?wk2 = "\<lparr>w_petition = p, w_phase = RUN_ACTION, w_todo = [], w_assigned = (?todo \<noteq> []),
               w_raised = None\<rparr>"
  let ?f = "foldl (assign_pid p) ?a ?todo"
  let ?s2 = "?f\<lparr>workers := (workers s)[k := ?wk2]\<rparr>"
  have "(t_launch k ^^ length ?todo) ?s1 =
          (foldl (assign_pid p) ?s1 ?todo)
            \<lparr>workers := (workers ?s1)[k := ?wk1\<lparr>w_todo := [],
                 w_assigned := (w_assigned ?wk1 \<or> ?todo \<noteq> [])\<rparr>]\<rparr>"
    using k by (intro t_launch_assigning) simp_all
  then have many: "(t_launch k ^^ length ?todo) ?s1 = ?s2"
    by (simp add: foldl_assign_pid_workers)
  let ?e = "except_Exception ?f (snd (p_action p))"
  let ?s3 = "(fst ?e)\<lparr>workers := (workers s)[k := ?wk2\<lparr>w_phase := CLEANUP, w_raised := snd ?e\<rparr>]\<rparr>"
  have handler: "t_launch k ?s2 = ?s3"
    using k by (simp add: t_launch_def launch_step_def except_Exception_workers
                  except_Exception_frame split: prod.splits)
  have cleanup: "t_launch k ?s3 =
      (finally_block (fst ?e) p)
        \<lparr>workers := (workers s)[k := \<lparr>w_petition = p, w_phase = FINISHED, w_todo = [],
             w_assigned = (?todo \<noteq> []), w_raised = snd ?e\<rparr>]\<rparr>"
    using k by (simp add: t_launch_def launch_step_def finally_block_workers
                  except_Exception_frame)
  have st: "start s p = (finally_block (fst ?e) p, snd ?e)"
    using True by (simp add: start_def run_action_def Let_def split: prod.splits)
  have "(t_launch k ^^ (length ?todo + 3)) s =
          t_launch k (t_launch k ((t_launch k ^^ length ?todo) (t_launch k s)))"
    by (rule funpow_split)
  then have "(t_launch k ^^ (length ?todo + 3)) s =
      (finally_block (fst ?e) p)
        \<lparr>workers := (workers s)[k := \<lparr>w_petition = p, w_phase = FINISHED, w_todo = [],
             w_assigned = (?todo \<noteq> []), w_raised = snd ?e\<rparr>]\<rparr>"
    by (simp only: one many handler cleanup)
  then show ?thesis
    using True by (simp only: st fst_conv snd_conv simp_thms)
qed
end
